theory Spec2Isabelle
  imports Complex_Main "HOL-Library.Sublist"
begin

section \<open>Data model\<close>

text \<open>
  The service keeps a collection of users in one JSON file and a registry of tasks in
  memory. A JavaScript string is modelled as a \<^typ>\<open>string\<close>, one list element per
  code unit, so that \<open>length\<close> is the \<open>.length\<close> that the schema checks. Array
  lengths, indices into arrays, iteration counts and times are integers, modelled as
  \<^typ>\<open>int\<close>; a number of a request body is the rational value of the parsed double.
\<close>

text \<open>
  The numbers that \<open>parseInt\<close> returns and \<open>GET /users\<close> computes with: \<open>NaN\<close>,
  the two infinities (\<open>parseInt\<close> of a digit string of \<open>2^1024\<close> or more is
  \<open>Infinity\<close>), or a finite whole number. A finite value is kept exactly; the two
  zeros are one value.
\<close>

datatype jsnum = NaN | NegInf | Fin int | PosInf

text \<open>\<open>interface User\<close>: \<open>isActive\<close> is optional, \<open>None\<close> is the absent field.\<close>

record user =
  id' :: string
  name :: string
  email :: string
  createdAt :: string
  isActive :: "bool option"

text \<open>\<open>interface Task\<close>, with its three-valued \<open>status\<close>.\<close>

datatype task_status = Processing | Completed | Error

record task =
  taskId :: string
  status :: task_status
  iterations :: int
  result :: "rat option"
  duration :: "int option"
  error :: "string option"

text \<open>A request body as \<open>express.json()\<close> leaves it in \<open>req.body\<close>; the key list of
  an object holds each own property once.\<close>

datatype json =
  JNull
  | JBool bool
  | JNum rat
  | JStr string
  | JArr "json list"
  | JObj "(string \<times> json) list"

text \<open>
  The users file as \<open>readUsers\<close> can find it: absent, unreadable, not JSON, or the
  serialised array of users (\<open>JSON.parse\<close> of what \<open>JSON.stringify\<close> wrote gives the
  same array back, so the parsed array stands for the file's text).
\<close>

datatype file_state = FileMissing | ReadError | BadJson | Users "user list"

text \<open>
  The state the handlers share: the users file, whether \<open>writeFile\<close> on it succeeds,
  the in-memory \<open>tasks\<close> map, and the workers still running, each with the
  \<open>startTime\<close> its callbacks closed over.
\<close>

record server =
  usersFile :: file_state
  writable :: bool
  tasks :: "string \<rightharpoonup> task"
  workers :: "string \<rightharpoonup> int"

text \<open>What a handler sends: the status code and the JSON body.\<close>

datatype issue = invalid_type string | too_small string | too_big string | invalid_format string

record pagination =
  page :: jsnum
  limit :: jsnum
  total' :: int
  pages :: jsnum

datatype body =
  NoBody
  | HealthBody
  | ErrorBody string
  | IssuesBody "issue list"
  | UserBody user
  | UsersBody "user list"
  | PageBody "user list" pagination
  | AcceptedBody string task_status int
  | TaskBody task

record response =
  code :: nat
  payload :: body

text \<open>The storage and registry operations a handler performed, in order.\<close>

datatype io = ReadUsers | WriteUsers | TasksGet | TasksSet | SpawnWorker

type_synonym outcome = "response \<times> server \<times> io list"

section \<open>Helpers\<close>

text \<open>\<open>readUsers\<close>: any failure of \<open>readFile\<close> or \<open>JSON.parse\<close> is caught and
  answered with the empty array.\<close>

definition readUsers :: "server \<Rightarrow> user list" where
  "readUsers s = (case usersFile s of Users us \<Rightarrow> us | _ \<Rightarrow> [])"

text \<open>\<open>writeUsers\<close>: rewrites the whole file, or throws (\<open>None\<close>); a failed write is
  taken to leave the file as it was.\<close>

definition writeUsers :: "server \<Rightarrow> user list \<Rightarrow> server option" where
  "writeUsers s us = (if writable s then Some (s\<lparr>usersFile := Users us\<rparr>) else None)"

text \<open>
  The arithmetic of these numbers, as far as the handler uses it: truthiness (\<open>NaN\<close>
  and \<open>0\<close> are falsy), \<open><\<close> (false when either side is \<open>NaN\<close>), \<open>+\<close>,
  \<open>-\<close> and \<open>*\<close> (\<open>Infinity - Infinity\<close> and \<open>0 * Infinity\<close> are \<open>NaN\<close>), and
  \<open>Math.ceil(total / limit)\<close> for an array length \<open>total\<close>.
\<close>

fun js_truthy :: "jsnum \<Rightarrow> bool" where
  "js_truthy NaN = False"
| "js_truthy (Fin n) = (n \<noteq> 0)"
| "js_truthy NegInf = True"
| "js_truthy PosInf = True"

fun js_less :: "jsnum \<Rightarrow> jsnum \<Rightarrow> bool" where
  "js_less NaN b = False"
| "js_less a NaN = False"
| "js_less PosInf b = False"
| "js_less a NegInf = False"
| "js_less NegInf b = True"
| "js_less a PosInf = True"
| "js_less (Fin a) (Fin b) = (a < b)"

fun js_neg :: "jsnum \<Rightarrow> jsnum" where
  "js_neg NaN = NaN"
| "js_neg NegInf = PosInf"
| "js_neg PosInf = NegInf"
| "js_neg (Fin a) = Fin (- a)"

fun js_add :: "jsnum \<Rightarrow> jsnum \<Rightarrow> jsnum" where
  "js_add NaN b = NaN"
| "js_add a NaN = NaN"
| "js_add PosInf NegInf = NaN"
| "js_add NegInf PosInf = NaN"
| "js_add PosInf b = PosInf"
| "js_add a PosInf = PosInf"
| "js_add NegInf b = NegInf"
| "js_add a NegInf = NegInf"
| "js_add (Fin a) (Fin b) = Fin (a + b)"

definition js_sub :: "jsnum \<Rightarrow> jsnum \<Rightarrow> jsnum" where
  "js_sub a b = js_add a (js_neg b)"

text \<open>An infinity times a finite number: \<open>NaN\<close> for zero, else the infinity with the
  sign of the product.\<close>

definition inf_times :: "bool \<Rightarrow> int \<Rightarrow> jsnum" where
  "inf_times positive a =
     (if a = 0 then NaN else if (0 < a) = positive then PosInf else NegInf)"

fun js_mul :: "jsnum \<Rightarrow> jsnum \<Rightarrow> jsnum" where
  "js_mul NaN b = NaN"
| "js_mul a NaN = NaN"
| "js_mul (Fin a) (Fin b) = Fin (a * b)"
| "js_mul (Fin a) PosInf = inf_times True a"
| "js_mul (Fin a) NegInf = inf_times False a"
| "js_mul PosInf (Fin b) = inf_times True b"
| "js_mul NegInf (Fin b) = inf_times False b"
| "js_mul PosInf PosInf = PosInf"
| "js_mul NegInf NegInf = PosInf"
| "js_mul PosInf NegInf = NegInf"
| "js_mul NegInf PosInf = NegInf"

fun ceil_quotient :: "int \<Rightarrow> jsnum \<Rightarrow> jsnum" where
  "ceil_quotient t NaN = NaN"
| "ceil_quotient t PosInf = Fin 0"
| "ceil_quotient t NegInf = Fin 0"
| "ceil_quotient t (Fin l) =
     (if l = 0 then (if t = 0 then NaN else if 0 < t then PosInf else NegInf)
      else Fin \<lceil>real_of_int t / real_of_int l\<rceil>)"

text \<open>
  \<open>Array.prototype.slice(start, end)\<close> with both arguments given. An argument is
  first made an integer or an infinity (\<open>NaN\<close> becomes 0), then clamped into the
  array: from the end when negative, to the length when too large.
\<close>

fun relative_index :: "int \<Rightarrow> jsnum \<Rightarrow> int" where
  "relative_index len NaN = 0"
| "relative_index len NegInf = 0"
| "relative_index len PosInf = len"
| "relative_index len (Fin i) = (if i < 0 then max (len + i) 0 else min i len)"

definition slice :: "'a list \<Rightarrow> jsnum \<Rightarrow> jsnum \<Rightarrow> 'a list" where
  "slice xs startIndex endIndex =
     (let len = int (length xs);
          k = relative_index len startIndex;
          final = relative_index len endIndex
      in take (nat (final - k)) (drop (nat k) xs))"

text \<open>\<open>Array.prototype.findIndex\<close>: the first index whose element passes, \<open>None\<close>
  for \<open>-1\<close>.\<close>

fun findIndex :: "('a \<Rightarrow> bool) \<Rightarrow> 'a list \<Rightarrow> nat option" where
  "findIndex p [] = None"
| "findIndex p (x # xs) =
     (if p x then Some 0 else (case findIndex p xs of None \<Rightarrow> None | Some i \<Rightarrow> Some (Suc i)))"

text \<open>\<open>users.splice(userIndex, 1)\<close>: removes the one element at the index.\<close>

definition splice1 :: "'a list \<Rightarrow> nat \<Rightarrow> 'a list" where
  "splice1 xs i = take i xs @ drop (Suc i) xs"

section \<open>GET /users/active\<close>

definition get_users_active :: "server \<Rightarrow> outcome" where
  "get_users_active s =
     (let users = readUsers s;
          activeUsers = filter (\<lambda>user. isActive user = Some True) users
      in (\<lparr>code = 200, payload = UsersBody activeUsers\<rparr>, s, [ReadUsers]))"

section \<open>GET /users\<close>

text \<open>
  \<open>pq\<close> and \<open>lq\<close> are the values of \<open>parseInt(req.query.page)\<close> and
  \<open>parseInt(req.query.limit)\<close>: \<open>NaN\<close> for an absent or non-numeric parameter.
  \<open>||\<close> replaces a falsy value by the default. Products and sums of finite values
  are kept exactly, where a double rounds above \<open>2^53\<close> and overflows to
  \<open>Infinity\<close>; such an index is beyond the end of the array (shorter than \<open>2^32\<close>)
  either way, and \<open>slice\<close> clamps it to the length.
\<close>

definition or_default :: "jsnum \<Rightarrow> int \<Rightarrow> jsnum" where
  "or_default q d = (if js_truthy q then q else Fin d)"

definition get_users :: "server \<Rightarrow> jsnum \<Rightarrow> jsnum \<Rightarrow> outcome" where
  "get_users s pq lq =
     (let users = readUsers s;
          page0 = or_default pq 1;
          limit0 = or_default lq 10;
          page1 = (if js_less page0 (Fin 1) then Fin 1 else page0);
          limit1 = (if js_less limit0 (Fin 1) then Fin 10 else limit0);
          reversedUsers = rev users;
          total1 = int (length reversedUsers);
          pages1 = ceil_quotient total1 limit1;
          startIndex = js_mul (js_sub page1 (Fin 1)) limit1;
          endIndex = js_add startIndex limit1;
          paginatedUsers = slice reversedUsers startIndex endIndex
      in (\<lparr>code = 200,
           payload = PageBody paginatedUsers
             \<lparr>page = page1, limit = limit1, total' = total1, pages = pages1\<rparr>\<rparr>,
          s, [ReadUsers]))"

section \<open>Identifier format\<close>

text \<open>
  The three handlers that take an id test it against
  \<open>/^[0-9a-f]{8}-[0-9a-f]{4}-[0-9a-f]{4}-[0-9a-f]{4}-[0-9a-f]{12}$/i\<close>.
  \<open>hex_group n\<close> is \<open>[0-9a-f]{n}\<close> under the \<open>i\<close> flag and \<open>dash\<close> is the
  literal \<open>-\<close>: each consumes its match from the front and returns the rest; the
  anchors leave no rest at the end.
\<close>

definition is_hex :: "char \<Rightarrow> bool" where
  "is_hex c = (c \<in> set ''0123456789abcdefABCDEF'')"

fun hex_group :: "nat \<Rightarrow> string \<Rightarrow> string option" where
  "hex_group 0 s = Some s"
| "hex_group (Suc n) [] = None"
| "hex_group (Suc n) (c # s) = (if is_hex c then hex_group n s else None)"

fun dash :: "string \<Rightarrow> string option" where
  "dash [] = None"
| "dash (c # s) = (if c = CHR ''-'' then Some s else None)"

definition uuidRegex_test :: "string \<Rightarrow> bool" where
  "uuidRegex_test s =
     (Option.bind (Option.bind (Option.bind (Option.bind (Option.bind (Option.bind
        (Option.bind (Option.bind (hex_group 8 s) dash) (hex_group 4)) dash) (hex_group 4))
        dash) (hex_group 4)) dash) (hex_group 12) = Some [])"

section \<open>GET /users/:id and DELETE /users/:id\<close>

definition get_user_by_id :: "server \<Rightarrow> string \<Rightarrow> outcome" where
  "get_user_by_id s ident =
     (if \<not> uuidRegex_test ident
      then (\<lparr>code = 404, payload = ErrorBody ''User not found''\<rparr>, s, [])
      else
        (let users = readUsers s in
         case find (\<lambda>u. id' u = ident) users of
           None \<Rightarrow> (\<lparr>code = 404, payload = ErrorBody ''User not found''\<rparr>, s, [ReadUsers])
         | Some user \<Rightarrow> (\<lparr>code = 200, payload = UserBody user\<rparr>, s, [ReadUsers])))"

definition delete_user :: "server \<Rightarrow> string \<Rightarrow> outcome" where
  "delete_user s ident =
     (if \<not> uuidRegex_test ident
      then (\<lparr>code = 404, payload = ErrorBody ''User not found''\<rparr>, s, [])
      else
        (let users = readUsers s in
         case findIndex (\<lambda>u. id' u = ident) users of
           None \<Rightarrow> (\<lparr>code = 404, payload = ErrorBody ''User not found''\<rparr>, s, [ReadUsers])
         | Some userIndex \<Rightarrow>
             (case writeUsers s (splice1 users userIndex) of
                None \<Rightarrow>
                  (\<lparr>code = 500, payload = ErrorBody ''Internal server error''\<rparr>, s,
                   [ReadUsers, WriteUsers])
              | Some s' \<Rightarrow> (\<lparr>code = 204, payload = NoBody\<rparr>, s', [ReadUsers, WriteUsers]))))"

section \<open>The schemas\<close>

text \<open>
  \<open>UserSchema\<close> and \<open>TaskSchema\<close> are built from the validation library's
  \<open>z.object\<close>, \<open>z.string().min(2)\<close>, \<open>z.email()\<close> and
  \<open>z.number().int().positive().max(1000000)\<close>. \<open>parse\<close> returns the validated data
  (\<open>Inr\<close>) or throws the list of issues (\<open>Inl\<close>); an issue is kept as its code and
  the field it is about. The library's test for the syntax of an email address is the
  parameter \<open>isEmail\<close>. \<open>None\<close> is \<open>undefined\<close>: an absent body or an absent key.
\<close>

definition name_schema :: "json option \<Rightarrow> issue list + string" where
  "name_schema v =
     (case v of
        Some (JStr s) \<Rightarrow> if length s < 2 then Inl [too_small ''name''] else Inr s
      | _ \<Rightarrow> Inl [invalid_type ''name''])"

definition email_schema :: "(string \<Rightarrow> bool) \<Rightarrow> json option \<Rightarrow> issue list + string" where
  "email_schema isEmail v =
     (case v of
        Some (JStr s) \<Rightarrow> if isEmail s then Inr s else Inl [invalid_format ''email'']
      | _ \<Rightarrow> Inl [invalid_type ''email''])"

definition UserSchema_parse ::
  "(string \<Rightarrow> bool) \<Rightarrow> json option \<Rightarrow> issue list + (string \<times> string)" where
  "UserSchema_parse isEmail b =
     (case b of
        Some (JObj kvs) \<Rightarrow>
          (case (name_schema (map_of kvs ''name''), email_schema isEmail (map_of kvs ''email'')) of
             (Inr n, Inr e) \<Rightarrow> Inr (n, e)
           | (Inl is1, Inr e) \<Rightarrow> Inl is1
           | (Inr n, Inl is2) \<Rightarrow> Inl is2
           | (Inl is1, Inl is2) \<Rightarrow> Inl (is1 @ is2))
      | _ \<Rightarrow> Inl [invalid_type []])"

definition iterations_schema :: "json option \<Rightarrow> issue list + int" where
  "iterations_schema v =
     (case v of
        Some (JNum x) \<Rightarrow>
          if of_int \<lfloor>x\<rfloor> \<noteq> x then Inl [invalid_type ''iterations'']
          else
            (let issues =
                   (if 0 < x then [] else [too_small ''iterations'']) @
                   (if x \<le> 1000000 then [] else [too_big ''iterations''])
             in if issues = [] then Inr \<lfloor>x\<rfloor> else Inl issues)
      | _ \<Rightarrow> Inl [invalid_type ''iterations''])"

definition TaskSchema_parse :: "json option \<Rightarrow> issue list + int" where
  "TaskSchema_parse b =
     (case b of
        Some (JObj kvs) \<Rightarrow> iterations_schema (map_of kvs ''iterations'')
      | _ \<Rightarrow> Inl [invalid_type []])"

section \<open>POST /users\<close>

text \<open>\<open>uuid\<close> is what \<open>randomUUID()\<close> returns in this request and \<open>now\<close> what
  \<open>new Date().toISOString()\<close> returns.\<close>

definition post_users ::
  "(string \<Rightarrow> bool) \<Rightarrow> string \<Rightarrow> string \<Rightarrow> server \<Rightarrow> json option \<Rightarrow> outcome" where
  "post_users isEmail uuid now s b =
     (case UserSchema_parse isEmail b of
        Inl issues \<Rightarrow> (\<lparr>code = 400, payload = IssuesBody issues\<rparr>, s, [])
      | Inr (vname, vemail) \<Rightarrow>
          (let users = readUsers s;
               emailExists = list_ex (\<lambda>user. email user = vemail) users
           in if emailExists
              then (\<lparr>code = 409, payload = ErrorBody ''Email already exists''\<rparr>, s, [ReadUsers])
              else
                (let newUser = \<lparr>id' = uuid, name = vname, email = vemail, createdAt = now,
                                isActive = None\<rparr>
                 in case writeUsers s (users @ [newUser]) of
                      None \<Rightarrow>
                        (\<lparr>code = 500, payload = ErrorBody ''Internal server error''\<rparr>, s,
                         [ReadUsers, WriteUsers])
                    | Some s' \<Rightarrow>
                        (\<lparr>code = 201, payload = UserBody newUser\<rparr>, s',
                         [ReadUsers, WriteUsers]))))"

section \<open>Tasks\<close>

text \<open>
  \<open>POST /tasks/heavy\<close>: \<open>uuid\<close> is the value of \<open>randomUUID()\<close> and \<open>now\<close> of
  \<open>Date.now()\<close>. The new worker is recorded with the \<open>startTime\<close> its callbacks use.
\<close>

definition post_tasks_heavy :: "string \<Rightarrow> int \<Rightarrow> server \<Rightarrow> json option \<Rightarrow> outcome" where
  "post_tasks_heavy uuid now s b =
     (case TaskSchema_parse b of
        Inl issues \<Rightarrow> (\<lparr>code = 400, payload = IssuesBody issues\<rparr>, s, [])
      | Inr n \<Rightarrow>
          (let task = \<lparr>taskId = uuid, status = Processing, iterations = n, result = None,
                       duration = None, error = None\<rparr>;
               s1 = s\<lparr>tasks := (tasks s)(uuid \<mapsto> task)\<rparr>;
               s2 = s1\<lparr>workers := (workers s1)(uuid \<mapsto> now)\<rparr>
           in (\<lparr>code = 202, payload = AcceptedBody uuid Processing n\<rparr>, s2,
               [TasksSet, SpawnWorker])))"

definition get_task :: "server \<Rightarrow> string \<Rightarrow> outcome" where
  "get_task s ident =
     (if \<not> uuidRegex_test ident
      then (\<lparr>code = 404, payload = ErrorBody ''Task not found''\<rparr>, s, [])
      else
        (case tasks s ident of
           None \<Rightarrow> (\<lparr>code = 404, payload = ErrorBody ''Task not found''\<rparr>, s, [TasksGet])
         | Some task \<Rightarrow> (\<lparr>code = 200, payload = TaskBody task\<rparr>, s, [TasksGet])))"

text \<open>The bodies of the two callbacks registered on the worker.\<close>

definition on_message :: "task \<Rightarrow> rat \<Rightarrow> int \<Rightarrow> task" where
  "on_message task res dur = task\<lparr>status := Completed, result := Some res, duration := Some dur\<rparr>"

definition on_error :: "task \<Rightarrow> string \<Rightarrow> task" where
  "on_error task msg = task\<lparr>status := Error, error := Some msg\<rparr>"

text \<open>
  The worker script computes, posts its one message as its last statement and exits; a
  worker that cannot run raises one \<open>error\<close> event instead and is gone. So an event
  is delivered only for a worker that is still running, and ends it. The callback
  changes the task object that the map holds under the same id and stores it again.
\<close>

definition worker_message :: "string \<Rightarrow> rat \<Rightarrow> int \<Rightarrow> server \<Rightarrow> server option" where
  "worker_message tid res now s =
     (case (workers s tid, tasks s tid) of
        (Some startTime, Some task) \<Rightarrow>
          Some (s\<lparr>tasks := (tasks s)(tid \<mapsto> on_message task res (now - startTime)),
                 workers := (workers s)(tid := None)\<rparr>)
      | _ \<Rightarrow> None)"

definition worker_error :: "string \<Rightarrow> string \<Rightarrow> server \<Rightarrow> server option" where
  "worker_error tid msg s =
     (case (workers s tid, tasks s tid) of
        (Some startTime, Some task) \<Rightarrow>
          Some (s\<lparr>tasks := (tasks s)(tid \<mapsto> on_error task msg),
                 workers := (workers s)(tid := None)\<rparr>)
      | _ \<Rightarrow> None)"

section \<open>The worker\<close>

text \<open>
  \<open>heavyComputation\<close> adds \<open>Math.sqrt(i) * Math.sin(i)\<close> to \<open>result\<close> for
  \<open>i = 0, 1, ...\<close> while \<open>i < iterations\<close>. The double arithmetic is a parameter:
  the value of zero, addition, multiplication, and the square root and sine of a
  counter value.
\<close>

record 'f arith =
  fzero :: 'f
  fadd :: "'f \<Rightarrow> 'f \<Rightarrow> 'f"
  fmul :: "'f \<Rightarrow> 'f \<Rightarrow> 'f"
  fsqrt :: "nat \<Rightarrow> 'f"
  fsin :: "nat \<Rightarrow> 'f"

function heavy_loop :: "'f arith \<Rightarrow> nat \<Rightarrow> nat \<Rightarrow> 'f \<Rightarrow> 'f" where
  "heavy_loop ops iters i res =
     (if i < iters
      then heavy_loop ops iters (i + 1) (fadd ops res (fmul ops (fsqrt ops i) (fsin ops i)))
      else res)"
  by pat_completeness auto
termination
  by (relation "measure (\<lambda>(ops, iters, i, res). iters - i)") auto

declare heavy_loop.simps [simp del]

definition heavyComputation :: "'f arith \<Rightarrow> nat \<Rightarrow> 'f" where
  "heavyComputation ops iters = heavy_loop ops iters 0 (fzero ops)"

text \<open>The same operations in exact real arithmetic, for comparison.\<close>

definition real_arith :: "real arith" where
  "real_arith = \<lparr>fzero = 0, fadd = (+), fmul = (*),
                 fsqrt = (\<lambda>i. sqrt (real i)), fsin = (\<lambda>i. sin (real i))\<rparr>"

section \<open>The server as a transition system\<close>

datatype request =
  GetHealth
  | GetUsersActive
  | PostUsers "json option"
  | GetUsers jsnum jsnum
  | GetUser string
  | DeleteUser string
  | PostTasksHeavy "json option"
  | GetTask string

text \<open>The router: \<open>/users/active\<close> is registered before \<open>/users/:id\<close>. \<open>uuid\<close>,
  \<open>stamp\<close> and \<open>ms\<close> are what \<open>randomUUID()\<close>, \<open>new Date().toISOString()\<close> and
  \<open>Date.now()\<close> return while the request is handled.\<close>

definition handle ::
  "(string \<Rightarrow> bool) \<Rightarrow> string \<Rightarrow> string \<Rightarrow> int \<Rightarrow> server \<Rightarrow> request \<Rightarrow> outcome" where
  "handle isEmail uuid stamp ms s req =
     (case req of
        GetHealth \<Rightarrow> (\<lparr>code = 200, payload = HealthBody\<rparr>, s, [])
      | GetUsersActive \<Rightarrow> get_users_active s
      | PostUsers b \<Rightarrow> post_users isEmail uuid stamp s b
      | GetUsers pq lq \<Rightarrow> get_users s pq lq
      | GetUser ident \<Rightarrow> get_user_by_id s ident
      | DeleteUser ident \<Rightarrow> delete_user s ident
      | PostTasksHeavy b \<Rightarrow> post_tasks_heavy uuid ms s b
      | GetTask ident \<Rightarrow> get_task s ident)"

text \<open>
  What can happen to the server: a request is handled, or a running worker delivers
  its message or its error. \<open>randomUUID()\<close> never returns an id that is in use, so
  a request is only considered with a \<open>uuid\<close> that is no key of the registry and
  no stored user's id. \<open>None\<close>: the event cannot happen in this state.
\<close>

datatype event =
  Http request string string int
  | WorkerMessage string rat int
  | WorkerError string string

definition step :: "(string \<Rightarrow> bool) \<Rightarrow> server \<Rightarrow> event \<Rightarrow> server option" where
  "step isEmail s ev =
     (case ev of
        Http req uuid stamp ms \<Rightarrow>
          (if tasks s uuid = None \<and> uuid \<notin> set (map id' (readUsers s))
           then Some (fst (snd (handle isEmail uuid stamp ms s req)))
           else None)
      | WorkerMessage tid res now \<Rightarrow> worker_message tid res now s
      | WorkerError tid msg \<Rightarrow> worker_error tid msg s)"

fun run :: "(string \<Rightarrow> bool) \<Rightarrow> server \<Rightarrow> event list \<Rightarrow> server option" where
  "run isEmail s [] = Some s"
| "run isEmail s (ev # evs) =
     (case step isEmail s ev of None \<Rightarrow> None | Some s' \<Rightarrow> run isEmail s' evs)"

text \<open>The server at start: no task, no worker.\<close>

definition boot :: "file_state \<Rightarrow> bool \<Rightarrow> server" where
  "boot f w = \<lparr>usersFile = f, writable = w, tasks = Map.empty, workers = Map.empty\<rparr>"

text \<open>Whether a step changed the status of the task \<open>tid\<close>, and how often a run does.\<close>

definition status_changed :: "string \<Rightarrow> server \<Rightarrow> server \<Rightarrow> bool" where
  "status_changed tid s s' =
     (case (tasks s tid, tasks s' tid) of
        (Some t, Some t') \<Rightarrow> status t \<noteq> status t'
      | _ \<Rightarrow> False)"

fun status_changes :: "(string \<Rightarrow> bool) \<Rightarrow> string \<Rightarrow> server \<Rightarrow> event list \<Rightarrow> nat" where
  "status_changes isEmail tid s [] = 0"
| "status_changes isEmail tid s (ev # evs) =
     (case step isEmail s ev of
        None \<Rightarrow> 0
      | Some s' \<Rightarrow>
          (if status_changed tid s s' then 1 else 0) + status_changes isEmail tid s' evs)"

text \<open>
  The invariant that ties the workers to the registry: a worker that is still running
  belongs to a task that is still \<open>processing\<close>. \<open>remaining\<close> is the number of
  status changes a task can still make.
\<close>

definition worker_inv :: "server \<Rightarrow> bool" where
  "worker_inv s =
     (\<forall>tid st. workers s tid = Some st \<longrightarrow> (\<exists>t. tasks s tid = Some t \<and> status t = Processing))"

definition remaining :: "server \<Rightarrow> string \<Rightarrow> nat" where
  "remaining s tid =
     (case tasks s tid of None \<Rightarrow> 1 | Some t \<Rightarrow> if status t = Processing then 1 else 0)"

text \<open>The data model's invariant of the collection: ids are unique and emails are unique.\<close>

definition users_inv :: "server \<Rightarrow> bool" where
  "users_inv s = (distinct (map id' (readUsers s)) \<and> distinct (map email (readUsers s)))"

section \<open>Example data\<close>

text \<open>A stand-in for the library's email test, three stored users, an id and a time
  stamp not yet used, and request bodies.\<close>

definition has_at :: "string \<Rightarrow> bool" where
  "has_at e = (CHR ''@'' \<in> set e)"

definition ann :: user where
  "ann = \<lparr>id' = ''11111111-1111-4111-8111-111111111111'', name = ''Ann'', email = ''ann@x.io'',
          createdAt = ''2024-01-01T00:00:00.000Z'', isActive = None\<rparr>"

definition store1 :: server where
  "store1 = boot (Users [ann]) True"

definition bob :: user where
  "bob = \<lparr>id' = ''22222222-2222-4222-8222-222222222222'', name = ''Bob'', email = ''bob@x.io'',
          createdAt = ''2024-01-02T00:00:00.000Z'', isActive = Some True\<rparr>"

definition cy :: user where
  "cy = \<lparr>id' = ''33333333-3333-4333-8333-333333333333'', name = ''Cy'', email = ''cy@x.io'',
         createdAt = ''2024-01-03T00:00:00.000Z'', isActive = Some False\<rparr>"

definition new_id :: string where
  "new_id = ''44444444-4444-4444-8444-444444444444''"

definition store3 :: server where
  "store3 = boot (Users [ann, bob, cy]) True"




definition ann_again :: "json option" where
  "ann_again = Some (JObj [(''name'', JStr ''Ann Two''), (''email'', JStr ''ann@x.io'')])"

definition short_name :: "json option" where
  "short_name = Some (JObj [(''name'', JStr ''A''), (''email'', JStr ''ann@x.io'')])"

definition dan_body :: "json option" where
  "dan_body = Some (JObj [(''name'', JStr ''Dan''), (''email'', JStr ''dan@x.io'')])"

definition stamp4 :: string where
  "stamp4 = ''2024-01-04T00:00:00.000Z''"

definition submit1000 :: event where
  "submit1000 = Http (PostTasksHeavy (Some (JObj [(''iterations'', JNum 1000)]))) new_id stamp4 100"

definition task1000 :: task where
  "task1000 = \<lparr>taskId = new_id, status = Processing, iterations = 1000, result = None,
               duration = None, error = None\<rparr>"

text \<open>The server after that submission, and after the worker's message 150 ms later.\<close>

definition submitted :: server where
  "submitted = (boot FileMissing True)\<lparr>tasks := [new_id \<mapsto> task1000],
                                         workers := [new_id \<mapsto> 100]\<rparr>"

definition finished :: server where
  "finished = (boot FileMissing True)
     \<lparr>tasks := [new_id \<mapsto> task1000\<lparr>status := Completed, result := Some 7,
                                      duration := Some 150\<rparr>],
      workers := Map.empty\<rparr>"

section \<open>Pagination (C1)\<close>








section \<open>Active users (C8)\<close>



section \<open>The worker computation (C9)\<close>

lemma heavy_loop_foldl:
  "i \<le> n \<Longrightarrow>
   heavy_loop ops n i r =
     foldl (\<lambda>acc k. fadd ops acc (fmul ops (fsqrt ops k) (fsin ops k))) r [i..<n]"
proof (induction ops n i r rule: heavy_loop.induct)
  case (1 ops iters i res)
  show ?case
  proof (cases "i < iters")
    case True
    then have "[i..<iters] = i # [i + 1..<iters]" by (simp add: upt_conv_Cons)
    with True "1.IH" show ?thesis by (subst heavy_loop.simps) simp
  next
    case False
    with "1.prems" show ?thesis by (subst heavy_loop.simps) simp
  qed
qed

lemma foldl_sum: "foldl (\<lambda>acc k. acc + f k) r [0..<n] = r + (\<Sum>k<n. f k)"
  by (induction n) (simp_all add: add.assoc)

text \<open>
  C9. \<open>heavyComputation(N)\<close> is the sum of \<open>sqrt(i) * sin(i)\<close> for \<open>i\<close> from 0 below
  \<open>N\<close>, accumulated from zero in increasing \<open>i\<close>, whatever the arithmetic; it is 0
  (the initial value) for \<open>N = 0\<close>; and in exact arithmetic it is the mathematical sum.
  Being a function of \<open>N\<close> and the arithmetic alone, it gives the same result for the
  same \<open>N\<close>.
\<close>

theorem heavyComputation_running_sum:
  "heavyComputation ops n =
     foldl (\<lambda>acc k. fadd ops acc (fmul ops (fsqrt ops k) (fsin ops k))) (fzero ops) [0..<n]
   \<and> heavyComputation ops 0 = fzero ops
   \<and> heavyComputation real_arith n = (\<Sum>i<n. sqrt (real i) * sin (real i))"
proof -
  have a: "\<And>(ops :: 'b arith) n. heavyComputation ops n =
     foldl (\<lambda>acc k. fadd ops acc (fmul ops (fsqrt ops k) (fsin ops k))) (fzero ops) [0..<n]"
    by (simp add: heavyComputation_def heavy_loop_foldl)
  have b: "heavyComputation real_arith n = (\<Sum>i<n. sqrt (real i) * sin (real i))"
    unfolding heavyComputation_def by (simp add: heavy_loop_foldl real_arith_def foldl_sum)
  from a[of ops n] a[of ops 0] b show ?thesis by simp
qed

section \<open>Read failures (C10)\<close>

text \<open>
  C10. When the users file is missing, unreadable or not JSON, \<open>readUsers\<close> yields the
  empty collection: \<open>GET /users\<close> answers 200 with empty data, \<open>GET /users/active\<close>
  200 with an empty array, \<open>GET\<close> and \<open>DELETE /users/:id\<close> 404 (and the delete
  leaves the server as it was); none answers 500.
\<close>

theorem read_failure_is_empty:
  assumes "usersFile s = FileMissing \<or> usersFile s = ReadError \<or> usersFile s = BadJson"
  shows "readUsers s = []
    \<and> (\<exists>pg. get_users s pq lq = (\<lparr>code = 200, payload = PageBody [] pg\<rparr>, s, [ReadUsers]))
    \<and> get_users_active s = (\<lparr>code = 200, payload = UsersBody []\<rparr>, s, [ReadUsers])
    \<and> code (fst (get_user_by_id s ident)) = 404
    \<and> code (fst (delete_user s ident)) = 404
    \<and> fst (snd (delete_user s ident)) = s"
proof -
  have r: "readUsers s = []" using assms by (auto simp: readUsers_def)
  have g: "\<exists>pg. get_users s pq lq = (\<lparr>code = 200, payload = PageBody [] pg\<rparr>, s, [ReadUsers])"
    by (simp add: get_users_def r Let_def slice_def)
  have a: "get_users_active s = (\<lparr>code = 200, payload = UsersBody []\<rparr>, s, [ReadUsers])"
    by (simp add: get_users_active_def r)
  have u: "code (fst (get_user_by_id s ident)) = 404"
    by (simp add: get_user_by_id_def r)
  have d: "code (fst (delete_user s ident)) = 404 \<and> fst (snd (delete_user s ident)) = s"
    by (simp add: delete_user_def r)
  from r g a u d show ?thesis by simp
qed

theorem read_failure_is_empty_witness:
  "usersFile (boot BadJson True) = BadJson
   \<and> readUsers (boot BadJson True) = []
   \<and> get_users (boot BadJson True) NaN NaN =
       (\<lparr>code = 200,
         payload = PageBody [] \<lparr>page = Fin 1, limit = Fin 10, total' = 0, pages = Fin 0\<rparr>\<rparr>,
        boot BadJson True, [ReadUsers])
   \<and> get_users_active (boot BadJson True) =
       (\<lparr>code = 200, payload = UsersBody []\<rparr>, boot BadJson True, [ReadUsers])
   \<and> code (fst (get_user_by_id (boot BadJson True) ''6f9619ff-8b86-d011-b42d-00c04fc964ff'')) = 404
   \<and> code (fst (delete_user (boot BadJson True) ''6f9619ff-8b86-d011-b42d-00c04fc964ff'')) = 404"
  using read_failure_is_empty[of "boot BadJson True" NaN NaN "''6f9619ff-8b86-d011-b42d-00c04fc964ff''"]
  by (auto simp: boot_def get_users_def or_default_def Let_def slice_def)

section \<open>Identifiers (C4)\<close>

lemma hex_group_append:
  "length a = n \<Longrightarrow> list_all is_hex a \<Longrightarrow> hex_group n (a @ r) = Some r"
  by (induction n arbitrary: a) (auto simp: length_Suc_conv)

lemma hex_group_SomeD:
  "hex_group n s = Some r \<Longrightarrow> \<exists>a. s = a @ r \<and> length a = n \<and> list_all is_hex a"
proof (induction n arbitrary: s)
  case 0
  then show ?case by simp
next
  case (Suc n)
  then obtain c t where s: "s = c # t" by (cases s) auto
  with Suc.prems have c: "is_hex c" and t: "hex_group n t = Some r"
    by (auto split: if_splits)
  from Suc.IH[OF t] obtain a where "t = a @ r" "length a = n" "list_all is_hex a" by blast
  with s c have "s = (c # a) @ r \<and> length (c # a) = Suc n \<and> list_all is_hex (c # a)" by simp
  then show ?case by blast
qed

lemma dash_Some: "dash s = Some r \<longleftrightarrow> s = CHR ''-'' # r"
  by (cases s) auto

lemma uuidRegex_test_shape:
  "uuidRegex_test s \<longleftrightarrow>
     (\<exists>a b c d e. s = a @ ''-'' @ b @ ''-'' @ c @ ''-'' @ d @ ''-'' @ e
        \<and> length a = 8 \<and> length b = 4 \<and> length c = 4 \<and> length d = 4 \<and> length e = 12
        \<and> list_all is_hex (a @ b @ c @ d @ e))"
proof
  assume "uuidRegex_test s"
  then obtain r1 r2 r3 r4 r5 r6 r7 r8 where
    h: "hex_group 8 s = Some r1" "dash r1 = Some r2" "hex_group 4 r2 = Some r3"
       "dash r3 = Some r4" "hex_group 4 r4 = Some r5" "dash r5 = Some r6"
       "hex_group 4 r6 = Some r7" "dash r7 = Some r8" "hex_group 12 r8 = Some []"
    unfolding uuidRegex_test_def by (auto simp: bind_eq_Some_conv)
  from hex_group_SomeD[OF h(1)] obtain a where a: "s = a @ r1" "length a = 8" "list_all is_hex a" by blast
  from hex_group_SomeD[OF h(3)] obtain b where b: "r2 = b @ r3" "length b = 4" "list_all is_hex b" by blast
  from hex_group_SomeD[OF h(5)] obtain c where c: "r4 = c @ r5" "length c = 4" "list_all is_hex c" by blast
  from hex_group_SomeD[OF h(7)] obtain d where d: "r6 = d @ r7" "length d = 4" "list_all is_hex d" by blast
  from hex_group_SomeD[OF h(9)] obtain e where e: "r8 = e @ []" "length e = 12" "list_all is_hex e" by blast
  from h(2,4,6,8) have r: "r1 = CHR ''-'' # r2" "r3 = CHR ''-'' # r4" "r5 = CHR ''-'' # r6" "r7 = CHR ''-'' # r8"
    by (simp_all add: dash_Some)
  have "s = a @ ''-'' @ b @ ''-'' @ c @ ''-'' @ d @ ''-'' @ e"
    using a(1) b(1) c(1) d(1) e(1) r by simp
  with a b c d e show "\<exists>a b c d e. s = a @ ''-'' @ b @ ''-'' @ c @ ''-'' @ d @ ''-'' @ e
        \<and> length a = 8 \<and> length b = 4 \<and> length c = 4 \<and> length d = 4 \<and> length e = 12
        \<and> list_all is_hex (a @ b @ c @ d @ e)"
    by (intro exI[of _ a] exI[of _ b] exI[of _ c] exI[of _ d] exI[of _ e]) simp
next
  assume "\<exists>a b c d e. s = a @ ''-'' @ b @ ''-'' @ c @ ''-'' @ d @ ''-'' @ e
        \<and> length a = 8 \<and> length b = 4 \<and> length c = 4 \<and> length d = 4 \<and> length e = 12
        \<and> list_all is_hex (a @ b @ c @ d @ e)"
  then obtain a b c d e where s: "s = a @ ''-'' @ b @ ''-'' @ c @ ''-'' @ d @ ''-'' @ e"
    and l: "length a = 8" "length b = 4" "length c = 4" "length d = 4" "length e = 12"
    and x: "list_all is_hex a" "list_all is_hex b" "list_all is_hex c" "list_all is_hex d" "list_all is_hex e"
    by auto
  have e0: "hex_group 12 e = Some []" using hex_group_append[OF l(5) x(5), of "[]"] by simp
  show "uuidRegex_test s"
    unfolding uuidRegex_test_def s
    by (simp add: hex_group_append[OF l(1) x(1)] hex_group_append[OF l(2) x(2)]
        hex_group_append[OF l(3) x(3)] hex_group_append[OF l(4) x(4)] e0)
qed

lemma find_None_ids: "find (\<lambda>u. id' u = ident) us = None \<longleftrightarrow> ident \<notin> id' ` set us"
  by (auto simp: find_None_iff)

lemma findIndex_None: "findIndex p xs = None \<longleftrightarrow> \<not> list_ex p xs"
  by (induction xs) (auto split: option.splits)

lemma findIndex_None_ids:
  "findIndex (\<lambda>u. id' u = ident) us = None \<longleftrightarrow> ident \<notin> id' ` set us"
  by (auto simp: findIndex_None list_ex_iff)

lemma ex_ids:
  "uuidRegex_test (id' ann)" "uuidRegex_test (id' bob)" "uuidRegex_test (id' cy)"
  "uuidRegex_test new_id" "\<not> uuidRegex_test ''999''"
  by code_simp+

text \<open>
  C4. The test accepts exactly the strings of five groups of 8, 4, 4, 4 and 12
  hexadecimal digits (either case) joined by \<open>-\<close>. For an id that fails it,
  \<open>GET /users/:id\<close>, \<open>DELETE /users/:id\<close> and \<open>GET /tasks/:taskId\<close> answer 404 and
  have performed no storage or registry operation; for a well-formed id that no stored
  user (no registered task) has, they answer 404 after the one lookup.
\<close>

theorem malformed_or_unknown_id_not_found:
  "(uuidRegex_test ident \<longleftrightarrow>
     (\<exists>a b c d e. ident = a @ ''-'' @ b @ ''-'' @ c @ ''-'' @ d @ ''-'' @ e
        \<and> length a = 8 \<and> length b = 4 \<and> length c = 4 \<and> length d = 4 \<and> length e = 12
        \<and> list_all is_hex (a @ b @ c @ d @ e)))
   \<and> (\<not> uuidRegex_test ident \<longrightarrow>
         get_user_by_id s ident = (\<lparr>code = 404, payload = ErrorBody ''User not found''\<rparr>, s, [])
       \<and> delete_user s ident = (\<lparr>code = 404, payload = ErrorBody ''User not found''\<rparr>, s, [])
       \<and> get_task s ident = (\<lparr>code = 404, payload = ErrorBody ''Task not found''\<rparr>, s, []))
   \<and> (uuidRegex_test ident \<longrightarrow> ident \<notin> id' ` set (readUsers s) \<longrightarrow>
         get_user_by_id s ident =
           (\<lparr>code = 404, payload = ErrorBody ''User not found''\<rparr>, s, [ReadUsers])
       \<and> delete_user s ident =
           (\<lparr>code = 404, payload = ErrorBody ''User not found''\<rparr>, s, [ReadUsers]))
   \<and> (uuidRegex_test ident \<longrightarrow> tasks s ident = None \<longrightarrow>
         get_task s ident = (\<lparr>code = 404, payload = ErrorBody ''Task not found''\<rparr>, s, [TasksGet]))"
proof -
  have a: "\<not> uuidRegex_test ident \<longrightarrow>
         get_user_by_id s ident = (\<lparr>code = 404, payload = ErrorBody ''User not found''\<rparr>, s, [])
       \<and> delete_user s ident = (\<lparr>code = 404, payload = ErrorBody ''User not found''\<rparr>, s, [])
       \<and> get_task s ident = (\<lparr>code = 404, payload = ErrorBody ''Task not found''\<rparr>, s, [])"
    by (simp add: get_user_by_id_def delete_user_def get_task_def)
  have b: "uuidRegex_test ident \<longrightarrow> ident \<notin> id' ` set (readUsers s) \<longrightarrow>
         get_user_by_id s ident =
           (\<lparr>code = 404, payload = ErrorBody ''User not found''\<rparr>, s, [ReadUsers])
       \<and> delete_user s ident =
           (\<lparr>code = 404, payload = ErrorBody ''User not found''\<rparr>, s, [ReadUsers])"
  proof (intro impI)
    assume w: "uuidRegex_test ident" and n: "ident \<notin> id' ` set (readUsers s)"
    have f: "find (\<lambda>u. id' u = ident) (readUsers s) = None"
      using n find_None_ids by blast
    have g: "findIndex (\<lambda>u. id' u = ident) (readUsers s) = None"
      using n findIndex_None_ids by blast
    show "get_user_by_id s ident =
           (\<lparr>code = 404, payload = ErrorBody ''User not found''\<rparr>, s, [ReadUsers])
       \<and> delete_user s ident =
           (\<lparr>code = 404, payload = ErrorBody ''User not found''\<rparr>, s, [ReadUsers])"
      by (simp add: get_user_by_id_def delete_user_def w f g)
  qed
  have c: "uuidRegex_test ident \<longrightarrow> tasks s ident = None \<longrightarrow>
         get_task s ident = (\<lparr>code = 404, payload = ErrorBody ''Task not found''\<rparr>, s, [TasksGet])"
    by (simp add: get_task_def)
  from uuidRegex_test_shape[of ident] a b c show ?thesis by blast
qed

theorem malformed_or_unknown_id_not_found_witness:
  "\<not> uuidRegex_test ''999''
   \<and> get_user_by_id store3 ''999'' =
       (\<lparr>code = 404, payload = ErrorBody ''User not found''\<rparr>, store3, [])
   \<and> delete_user store3 ''999'' =
       (\<lparr>code = 404, payload = ErrorBody ''User not found''\<rparr>, store3, [])
   \<and> get_task store3 ''999'' =
       (\<lparr>code = 404, payload = ErrorBody ''Task not found''\<rparr>, store3, [])
   \<and> uuidRegex_test new_id
   \<and> get_user_by_id store3 new_id =
       (\<lparr>code = 404, payload = ErrorBody ''User not found''\<rparr>, store3, [ReadUsers])
   \<and> delete_user store3 new_id =
       (\<lparr>code = 404, payload = ErrorBody ''User not found''\<rparr>, store3, [ReadUsers])
   \<and> get_task store3 new_id =
       (\<lparr>code = 404, payload = ErrorBody ''Task not found''\<rparr>, store3, [TasksGet])"
proof -
  have n: "new_id \<notin> id' ` set (readUsers store3)"
    by (simp add: readUsers_def store3_def boot_def ann_def bob_def cy_def new_id_def)
  have t: "tasks store3 new_id = None" by (simp add: store3_def boot_def)
  from malformed_or_unknown_id_not_found[of "''999''" store3]
    malformed_or_unknown_id_not_found[of new_id store3] ex_ids(4,5) n t
  show ?thesis by blast
qed

section \<open>Deletion (C7)\<close>






section \<open>Task submission (C5)\<close>

lemma iterations_schema_Inr:
  "iterations_schema v = Inr n \<longleftrightarrow> v = Some (JNum (of_int n)) \<and> 0 < n \<and> n \<le> 1000000"
proof
  assume a: "iterations_schema v = Inr n"
  then obtain x where v: "v = Some (JNum x)"
    by (auto simp: iterations_schema_def split: option.splits json.splits)
  from a v have i: "of_int \<lfloor>x\<rfloor> = x" and p: "0 < x" and m: "x \<le> 1000000" and n: "n = \<lfloor>x\<rfloor>"
    by (auto simp: iterations_schema_def Let_def split: if_splits)
  have x: "x = of_int n" unfolding n by (rule i[symmetric])
  from p m show "v = Some (JNum (of_int n)) \<and> 0 < n \<and> n \<le> 1000000"
    unfolding v x by simp
next
  assume "v = Some (JNum (of_int n)) \<and> 0 < n \<and> n \<le> 1000000"
  then show "iterations_schema v = Inr n"
    by (simp add: iterations_schema_def)
qed

lemma iterations_schema_Inl: "iterations_schema v = Inl is \<Longrightarrow> is \<noteq> []"
  by (auto simp: iterations_schema_def Let_def split: option.splits json.splits if_splits)

lemma TaskSchema_parse_Inr:
  "TaskSchema_parse b = Inr n \<longleftrightarrow>
     (\<exists>kvs. b = Some (JObj kvs) \<and> map_of kvs ''iterations'' = Some (JNum (of_int n))
        \<and> 0 < n \<and> n \<le> 1000000)"
  by (auto simp: TaskSchema_parse_def iterations_schema_Inr split: option.splits json.splits)

lemma TaskSchema_parse_Inl: "TaskSchema_parse b = Inl is \<Longrightarrow> is \<noteq> []"
  by (auto simp: TaskSchema_parse_def dest: iterations_schema_Inl split: option.splits json.splits)

lemma ex_iterations:
  "iterations_schema (Some (JNum 0)) = Inl [too_small ''iterations'']"
  "iterations_schema (Some (JNum (-3))) = Inl [too_small ''iterations'']"
  "iterations_schema (Some (JNum (3 / 2))) = Inl [invalid_type ''iterations'']"
  "iterations_schema (Some (JNum 1000001)) = Inl [too_big ''iterations'']"
  by code_simp+

text \<open>
  C5. \<open>POST /tasks/heavy\<close> answers 202 if and only if the body is an object whose
  \<open>iterations\<close> is a number that is an integer, positive and at most 1000000; then the
  answer carries the new task id, the status \<open>processing\<close> and that number, and the
  task is registered and its worker started. In every other case (0, a negative, a
  non-integer, a number above the bound, no number) the answer is 400 with a non-empty
  list of issues, the server is as before and no registry operation was performed.
\<close>

theorem submit_validation:
  "(code (fst (post_tasks_heavy uuid now s b)) = 202 \<longleftrightarrow>
      (\<exists>kvs n. b = Some (JObj kvs) \<and> map_of kvs ''iterations'' = Some (JNum (of_int n))
         \<and> 0 < n \<and> n \<le> 1000000))
   \<and> (\<forall>kvs n. b = Some (JObj kvs) \<and> map_of kvs ''iterations'' = Some (JNum (of_int n))
         \<and> 0 < n \<and> n \<le> 1000000 \<longrightarrow>
       post_tasks_heavy uuid now s b =
         (\<lparr>code = 202, payload = AcceptedBody uuid Processing n\<rparr>,
          s\<lparr>tasks := (tasks s)(uuid \<mapsto>
               \<lparr>taskId = uuid, status = Processing, iterations = n, result = None,
                duration = None, error = None\<rparr>),
            workers := (workers s)(uuid \<mapsto> now)\<rparr>,
          [TasksSet, SpawnWorker]))
   \<and> (code (fst (post_tasks_heavy uuid now s b)) \<noteq> 202 \<longrightarrow>
       (\<exists>issues. issues \<noteq> [] \<and>
          post_tasks_heavy uuid now s b = (\<lparr>code = 400, payload = IssuesBody issues\<rparr>, s, [])))"
proof (cases "TaskSchema_parse b")
  case (Inl issues)
  then have ne: "issues \<noteq> []" by (rule TaskSchema_parse_Inl)
  have no: "\<not> (\<exists>kvs n. b = Some (JObj kvs) \<and> map_of kvs ''iterations'' = Some (JNum (of_int n))
         \<and> 0 < n \<and> n \<le> 1000000)"
    using Inl TaskSchema_parse_Inr[of b] by auto
  have p: "post_tasks_heavy uuid now s b = (\<lparr>code = 400, payload = IssuesBody issues\<rparr>, s, [])"
    by (simp add: post_tasks_heavy_def Inl)
  from ne no p show ?thesis by auto
next
  case (Inr n)
  then obtain kvs where k: "b = Some (JObj kvs)"
      "map_of kvs ''iterations'' = Some (JNum (of_int n))" "0 < n" "n \<le> 1000000"
    using TaskSchema_parse_Inr[of b n] by auto
  have p: "post_tasks_heavy uuid now s b =
         (\<lparr>code = 202, payload = AcceptedBody uuid Processing n\<rparr>,
          s\<lparr>tasks := (tasks s)(uuid \<mapsto>
               \<lparr>taskId = uuid, status = Processing, iterations = n, result = None,
                duration = None, error = None\<rparr>),
            workers := (workers s)(uuid \<mapsto> now)\<rparr>,
          [TasksSet, SpawnWorker])"
    by (simp add: post_tasks_heavy_def Inr Let_def)
  from k p show ?thesis by auto
qed

theorem submit_validation_witness:
  "post_tasks_heavy new_id 100 store3 (Some (JObj [(''iterations'', JNum 1000000)])) =
     (\<lparr>code = 202, payload = AcceptedBody new_id Processing 1000000\<rparr>,
      store3\<lparr>tasks := (tasks store3)(new_id \<mapsto>
               \<lparr>taskId = new_id, status = Processing, iterations = 1000000, result = None,
                duration = None, error = None\<rparr>),
             workers := (workers store3)(new_id \<mapsto> 100)\<rparr>,
      [TasksSet, SpawnWorker])
   \<and> post_tasks_heavy new_id 100 store3 (Some (JObj [(''iterations'', JNum 0)])) =
       (\<lparr>code = 400, payload = IssuesBody [too_small ''iterations'']\<rparr>, store3, [])
   \<and> post_tasks_heavy new_id 100 store3 (Some (JObj [(''iterations'', JNum (-3))])) =
       (\<lparr>code = 400, payload = IssuesBody [too_small ''iterations'']\<rparr>, store3, [])
   \<and> post_tasks_heavy new_id 100 store3 (Some (JObj [(''iterations'', JNum (3 / 2))])) =
       (\<lparr>code = 400, payload = IssuesBody [invalid_type ''iterations'']\<rparr>, store3, [])
   \<and> post_tasks_heavy new_id 100 store3 (Some (JObj [(''iterations'', JNum 1000001)])) =
       (\<lparr>code = 400, payload = IssuesBody [too_big ''iterations'']\<rparr>, store3, [])"
proof -
  have a: "Some (JObj [(''iterations'', JNum 1000000)]) = Some (JObj [(''iterations'', JNum 1000000)])
      \<and> map_of [(''iterations'', JNum 1000000)] ''iterations'' = Some (JNum (of_int 1000000))
      \<and> (0::int) < 1000000 \<and> (1000000::int) \<le> 1000000"
    by simp
  from submit_validation[of new_id 100 store3 "Some (JObj [(''iterations'', JNum 1000000)])"] a
  have ok: "post_tasks_heavy new_id 100 store3 (Some (JObj [(''iterations'', JNum 1000000)])) =
     (\<lparr>code = 202, payload = AcceptedBody new_id Processing 1000000\<rparr>,
      store3\<lparr>tasks := (tasks store3)(new_id \<mapsto>
               \<lparr>taskId = new_id, status = Processing, iterations = 1000000, result = None,
                duration = None, error = None\<rparr>),
             workers := (workers store3)(new_id \<mapsto> 100)\<rparr>,
      [TasksSet, SpawnWorker])"
    by blast
  have bad: "post_tasks_heavy new_id 100 store3 (Some (JObj [(''iterations'', JNum 0)])) =
       (\<lparr>code = 400, payload = IssuesBody [too_small ''iterations'']\<rparr>, store3, [])"
    "post_tasks_heavy new_id 100 store3 (Some (JObj [(''iterations'', JNum (-3))])) =
       (\<lparr>code = 400, payload = IssuesBody [too_small ''iterations'']\<rparr>, store3, [])"
    "post_tasks_heavy new_id 100 store3 (Some (JObj [(''iterations'', JNum (3 / 2))])) =
       (\<lparr>code = 400, payload = IssuesBody [invalid_type ''iterations'']\<rparr>, store3, [])"
    "post_tasks_heavy new_id 100 store3 (Some (JObj [(''iterations'', JNum 1000001)])) =
       (\<lparr>code = 400, payload = IssuesBody [too_big ''iterations'']\<rparr>, store3, [])"
    by (simp_all add: post_tasks_heavy_def TaskSchema_parse_def ex_iterations)
  from ok bad show ?thesis by simp
qed

section \<open>Duplicate emails (C3)\<close>

lemma UserSchema_parse_Inr:
  "UserSchema_parse isEmail b = Inr (n, e) \<longleftrightarrow>
     (\<exists>kvs. b = Some (JObj kvs) \<and> map_of kvs ''name'' = Some (JStr n) \<and> 2 \<le> length n
        \<and> map_of kvs ''email'' = Some (JStr e) \<and> isEmail e)"
  by (auto simp: UserSchema_parse_def name_schema_def email_schema_def
      split: option.splits json.splits if_splits sum.splits)

text \<open>
  The claim as stated fails for a request that does not pass validation: the schema is
  checked first, so a too short name with a stored email is answered 400, not 409.
\<close>

theorem duplicate_email_short_name_counterexample:
  "''ann@x.io'' \<in> set (map email (readUsers store1)) 
   \<and> post_users has_at new_id stamp4 store1 short_name =
       (\<lparr>code = 400, payload = IssuesBody [too_small ''name'']\<rparr>, store1, [])
   \<and> code (fst (post_users has_at new_id stamp4 store1 short_name)) \<noteq> 409"
  by (simp add: store1_def boot_def readUsers_def ann_def short_name_def post_users_def
      UserSchema_parse_def name_schema_def email_schema_def has_at_def)

text \<open>
  C3, amended. For a request that passes validation (a name of at least 2 characters
  and a valid email), \<open>POST /users\<close> answers 409 exactly when some stored user has the
  very same email string, and then the server is as before and nothing was written.
  So, when the file can be written and at most one stored user has the email, after
  two such requests with the same email the second is answered 409 and the collection
  holds exactly one record with that email.
\<close>

theorem duplicate_email_conflict:
  assumes "b = Some (JObj kvs)"
    and "map_of kvs ''name'' = Some (JStr n)" and "2 \<le> length n"
    and "map_of kvs ''email'' = Some (JStr e)" and "isEmail e"
  shows "(e \<in> email ` set (readUsers s) \<longrightarrow>
            post_users isEmail uuid now s b =
              (\<lparr>code = 409, payload = ErrorBody ''Email already exists''\<rparr>, s, [ReadUsers]))
       \<and> (e \<notin> email ` set (readUsers s) \<longrightarrow> code (fst (post_users isEmail uuid now s b)) \<noteq> 409)
       \<and> (writable s \<longrightarrow> length (filter (\<lambda>u. email u = e) (readUsers s)) \<le> 1 \<longrightarrow>
            post_users isEmail uuid2 now2 (fst (snd (post_users isEmail uuid now s b))) b =
              (\<lparr>code = 409, payload = ErrorBody ''Email already exists''\<rparr>,
               fst (snd (post_users isEmail uuid now s b)), [ReadUsers])
          \<and> length (filter (\<lambda>u. email u = e)
               (readUsers (fst (snd (post_users isEmail uuid now s b))))) = 1)"
proof -
  have v: "UserSchema_parse isEmail b = Inr (n, e)"
    using assms UserSchema_parse_Inr[of isEmail b n e] by blast
  have dup: "post_users isEmail u t s0 b =
      (\<lparr>code = 409, payload = ErrorBody ''Email already exists''\<rparr>, s0, [ReadUsers])"
    if "e \<in> email ` set (readUsers s0)" for u t s0
  proof -
    from that have "list_ex (\<lambda>user. email user = e) (readUsers s0)"
      by (auto simp: list_ex_iff)
    then show ?thesis by (simp add: post_users_def v)
  qed
  have nodup: "code (fst (post_users isEmail uuid now s b)) \<noteq> 409"
    if "e \<notin> email ` set (readUsers s)"
  proof -
    from that have "\<not> list_ex (\<lambda>user. email user = e) (readUsers s)"
      by (auto simp: list_ex_iff)
    then show ?thesis
      by (simp add: post_users_def v Let_def writeUsers_def)
  qed
  have two: "post_users isEmail uuid2 now2 (fst (snd (post_users isEmail uuid now s b))) b =
              (\<lparr>code = 409, payload = ErrorBody ''Email already exists''\<rparr>,
               fst (snd (post_users isEmail uuid now s b)), [ReadUsers])
          \<and> length (filter (\<lambda>u. email u = e)
               (readUsers (fst (snd (post_users isEmail uuid now s b))))) = 1"
    if wr: "writable s" and le: "length (filter (\<lambda>u. email u = e) (readUsers s)) \<le> 1"
  proof (cases "e \<in> email ` set (readUsers s)")
    case True
    then have "filter (\<lambda>u. email u = e) (readUsers s) \<noteq> []"
      by (auto simp: filter_empty_conv)
    with le have one: "length (filter (\<lambda>u. email u = e) (readUsers s)) = 1"
      by (cases "filter (\<lambda>u. email u = e) (readUsers s)") auto
    from dup[OF True, of uuid now] have s1: "fst (snd (post_users isEmail uuid now s b)) = s"
      by simp
    show ?thesis unfolding s1 using dup[OF True, of uuid2 now2] one by simp
  next
    case False
    then have nex: "\<not> list_ex (\<lambda>user. email user = e) (readUsers s)"
      by (auto simp: list_ex_iff)
    let ?new = "\<lparr>id' = uuid, name = n, email = e, createdAt = now, isActive = None\<rparr>"
    let ?s1 = "s\<lparr>usersFile := Users (readUsers s @ [?new])\<rparr>"
    have p1: "post_users isEmail uuid now s b =
        (\<lparr>code = 201, payload = UserBody ?new\<rparr>, ?s1, [ReadUsers, WriteUsers])"
      by (simp add: post_users_def v nex writeUsers_def wr Let_def)
    have s1: "fst (snd (post_users isEmail uuid now s b)) = ?s1" by (simp add: p1)
    have r1: "readUsers ?s1 = readUsers s @ [?new]" by (simp add: readUsers_def)
    have none: "filter (\<lambda>u. email u = e) (readUsers s) = []"
      using False by (auto simp: filter_empty_conv)
    have in1: "e \<in> email ` set (readUsers ?s1)" unfolding r1 by simp
    show ?thesis unfolding s1 using dup[OF in1, of uuid2 now2] by (simp add: r1 none)
  qed
  from dup[of s uuid now] nodup two show ?thesis by blast
qed

theorem duplicate_email_conflict_witness:
  "2 \<le> length ''Ann Two'' \<and> has_at ''ann@x.io''
   \<and> ''ann@x.io'' \<in> email ` set (readUsers store1)
   \<and> post_users has_at new_id stamp4 store1 ann_again =
       (\<lparr>code = 409, payload = ErrorBody ''Email already exists''\<rparr>, store1, [ReadUsers])
   \<and> writable (boot FileMissing True)
   \<and> post_users has_at (id' bob) stamp4
        (fst (snd (post_users has_at new_id stamp4 (boot FileMissing True) ann_again))) ann_again =
       (\<lparr>code = 409, payload = ErrorBody ''Email already exists''\<rparr>,
        fst (snd (post_users has_at new_id stamp4 (boot FileMissing True) ann_again)), [ReadUsers])
   \<and> length (filter (\<lambda>u. email u = ''ann@x.io'')
        (readUsers (fst (snd (post_users has_at new_id stamp4 (boot FileMissing True) ann_again))))) = 1"
proof -
  have h: "ann_again = Some (JObj [(''name'', JStr ''Ann Two''), (''email'', JStr ''ann@x.io'')])"
    "map_of [(''name'', JStr ''Ann Two''), (''email'', JStr ''ann@x.io'')] ''name'' = Some (JStr ''Ann Two'')"
    "2 \<le> length ''Ann Two''"
    "map_of [(''name'', JStr ''Ann Two''), (''email'', JStr ''ann@x.io'')] ''email'' = Some (JStr ''ann@x.io'')"
    "has_at ''ann@x.io''"
    by (simp_all add: ann_again_def has_at_def)
  have m: "''ann@x.io'' \<in> email ` set (readUsers store1)"
    by (simp add: store1_def boot_def readUsers_def ann_def)
  have w: "writable (boot FileMissing True)"
    "length (filter (\<lambda>u. email u = ''ann@x.io'') (readUsers (boot FileMissing True))) \<le> 1"
    by (simp_all add: boot_def readUsers_def)
  note t1 = duplicate_email_conflict[where b = ann_again and isEmail = has_at
      and n = "''Ann Two''" and e = "''ann@x.io''" and s = store1 and uuid = new_id
      and now = stamp4, OF h]
  note t2 = duplicate_email_conflict[where b = ann_again and isEmail = has_at
      and n = "''Ann Two''" and e = "''ann@x.io''" and s = "boot FileMissing True"
      and uuid = new_id and now = stamp4 and ?uuid2.0 = "id' bob" and ?now2.0 = stamp4, OF h]
  from t1 m have a: "post_users has_at new_id stamp4 store1 ann_again =
       (\<lparr>code = 409, payload = ErrorBody ''Email already exists''\<rparr>, store1, [ReadUsers])"
    by blast
  from t2 w have b: "post_users has_at (id' bob) stamp4
        (fst (snd (post_users has_at new_id stamp4 (boot FileMissing True) ann_again))) ann_again =
       (\<lparr>code = 409, payload = ErrorBody ''Email already exists''\<rparr>,
        fst (snd (post_users has_at new_id stamp4 (boot FileMissing True) ann_again)), [ReadUsers])
   \<and> length (filter (\<lambda>u. email u = ''ann@x.io'')
        (readUsers (fst (snd (post_users has_at new_id stamp4 (boot FileMissing True) ann_again))))) = 1"
    by blast
  from a b m w(1) h(3,5) show ?thesis by blast
qed

section \<open>Creation and retrieval (C6)\<close>

lemma find_append_new:
  "ident \<notin> id' ` set us \<Longrightarrow> id' u = ident \<Longrightarrow> find (\<lambda>u. id' u = ident) (us @ [u]) = Some u"
  by (induction us) auto

text \<open>
  The claim as stated fails for a valid input whose email is already stored: the answer
  is 409, not 201.
\<close>

theorem valid_input_conflict_counterexample:
  "2 \<le> length ''Ann Two'' \<and> has_at ''ann@x.io''
   \<and> post_users has_at new_id stamp4 store1 ann_again =
       (\<lparr>code = 409, payload = ErrorBody ''Email already exists''\<rparr>, store1, [ReadUsers])
   \<and> code (fst (post_users has_at new_id stamp4 store1 ann_again)) \<noteq> 201"
  by (simp add: store1_def boot_def readUsers_def ann_def ann_again_def post_users_def
      UserSchema_parse_def name_schema_def email_schema_def has_at_def)

text \<open>
  C6, amended. For a body whose name and email are strings: when the name has at least
  2 characters, the email is valid, no stored user has that email and the file can be
  written, \<open>POST /users\<close> answers 201 with the record made of the new id, the
  submitted name and email and the creation time, appended to the collection; and when
  the new id is well-formed and no stored user has it (as \<open>randomUUID()\<close> ensures), a
  following \<open>GET /users/:id\<close> with it answers 200 with that record. When the name is
  shorter than 2 characters or the email is malformed, the answer is 400 listing the
  violations, one issue per violated field, and the server is as before.
\<close>

theorem create_then_get:
  assumes "b = Some (JObj kvs)"
    and "map_of kvs ''name'' = Some (JStr n)"
    and "map_of kvs ''email'' = Some (JStr e)"
  shows "(2 \<le> length n \<longrightarrow> isEmail e \<longrightarrow> e \<notin> email ` set (readUsers s) \<longrightarrow> writable s \<longrightarrow>
            post_users isEmail uuid now s b =
              (\<lparr>code = 201,
                payload = UserBody \<lparr>id' = uuid, name = n, email = e, createdAt = now,
                                    isActive = None\<rparr>\<rparr>,
               s\<lparr>usersFile := Users (readUsers s @
                    [\<lparr>id' = uuid, name = n, email = e, createdAt = now, isActive = None\<rparr>])\<rparr>,
               [ReadUsers, WriteUsers])
          \<and> (uuidRegex_test uuid \<longrightarrow> uuid \<notin> id' ` set (readUsers s) \<longrightarrow>
               get_user_by_id (fst (snd (post_users isEmail uuid now s b))) uuid =
                 (\<lparr>code = 200,
                   payload = UserBody \<lparr>id' = uuid, name = n, email = e, createdAt = now,
                                       isActive = None\<rparr>\<rparr>,
                  fst (snd (post_users isEmail uuid now s b)), [ReadUsers])))
       \<and> (length n < 2 \<or> \<not> isEmail e \<longrightarrow>
            post_users isEmail uuid now s b =
              (\<lparr>code = 400,
                payload = IssuesBody ((if length n < 2 then [too_small ''name''] else []) @
                                      (if isEmail e then [] else [invalid_format ''email'']))\<rparr>,
               s, []))"
proof -
  let ?new = "\<lparr>id' = uuid, name = n, email = e, createdAt = now, isActive = None\<rparr>"
  let ?s1 = "s\<lparr>usersFile := Users (readUsers s @ [?new])\<rparr>"
  have ok: "post_users isEmail uuid now s b =
              (\<lparr>code = 201, payload = UserBody ?new\<rparr>, ?s1, [ReadUsers, WriteUsers])
          \<and> (uuidRegex_test uuid \<longrightarrow> uuid \<notin> id' ` set (readUsers s) \<longrightarrow>
               get_user_by_id (fst (snd (post_users isEmail uuid now s b))) uuid =
                 (\<lparr>code = 200, payload = UserBody ?new\<rparr>,
                  fst (snd (post_users isEmail uuid now s b)), [ReadUsers]))"
    if n2: "2 \<le> length n" and em: "isEmail e" and fresh: "e \<notin> email ` set (readUsers s)"
      and wr: "writable s"
  proof -
    have v: "UserSchema_parse isEmail b = Inr (n, e)"
      using assms n2 em UserSchema_parse_Inr[of isEmail b n e] by blast
    from fresh have nex: "\<not> list_ex (\<lambda>user. email user = e) (readUsers s)"
      by (auto simp: list_ex_iff)
    have p1: "post_users isEmail uuid now s b =
        (\<lparr>code = 201, payload = UserBody ?new\<rparr>, ?s1, [ReadUsers, WriteUsers])"
      by (simp add: post_users_def v nex writeUsers_def wr Let_def)
    have s1: "fst (snd (post_users isEmail uuid now s b)) = ?s1" by (simp add: p1)
    have r1: "readUsers ?s1 = readUsers s @ [?new]" by (simp add: readUsers_def)
    have g: "get_user_by_id ?s1 uuid = (\<lparr>code = 200, payload = UserBody ?new\<rparr>, ?s1, [ReadUsers])"
      if w: "uuidRegex_test uuid" and f: "uuid \<notin> id' ` set (readUsers s)"
    proof -
      have "find (\<lambda>u. id' u = uuid) (readUsers s @ [?new]) = Some ?new"
        by (rule find_append_new[OF f]) simp
      then show ?thesis by (simp add: get_user_by_id_def w r1)
    qed
    from p1 g show ?thesis unfolding s1 by blast
  qed
  have bad: "post_users isEmail uuid now s b =
              (\<lparr>code = 400,
                payload = IssuesBody ((if length n < 2 then [too_small ''name''] else []) @
                                      (if isEmail e then [] else [invalid_format ''email'']))\<rparr>,
               s, [])"
    if "length n < 2 \<or> \<not> isEmail e"
    using that assms
    by (auto simp: post_users_def UserSchema_parse_def name_schema_def email_schema_def)
  from ok bad show ?thesis by blast
qed

theorem create_then_get_witness:
  "2 \<le> length ''Dan'' \<and> has_at ''dan@x.io'' \<and> writable store1 \<and> uuidRegex_test new_id
   \<and> post_users has_at new_id stamp4 store1 dan_body =
       (\<lparr>code = 201,
         payload = UserBody \<lparr>id' = new_id, name = ''Dan'', email = ''dan@x.io'',
                             createdAt = stamp4, isActive = None\<rparr>\<rparr>,
        store1\<lparr>usersFile := Users [ann, \<lparr>id' = new_id, name = ''Dan'', email = ''dan@x.io'',
                                          createdAt = stamp4, isActive = None\<rparr>]\<rparr>,
        [ReadUsers, WriteUsers])
   \<and> get_user_by_id (fst (snd (post_users has_at new_id stamp4 store1 dan_body))) new_id =
       (\<lparr>code = 200,
         payload = UserBody \<lparr>id' = new_id, name = ''Dan'', email = ''dan@x.io'',
                             createdAt = stamp4, isActive = None\<rparr>\<rparr>,
        fst (snd (post_users has_at new_id stamp4 store1 dan_body)), [ReadUsers])
   \<and> post_users has_at new_id stamp4 store1
        (Some (JObj [(''name'', JStr ''a''), (''email'', JStr ''invalid'')])) =
       (\<lparr>code = 400, payload = IssuesBody [too_small ''name'', invalid_format ''email'']\<rparr>,
        store1, [])"
proof -
  have h: "dan_body = Some (JObj [(''name'', JStr ''Dan''), (''email'', JStr ''dan@x.io'')])"
    "map_of [(''name'', JStr ''Dan''), (''email'', JStr ''dan@x.io'')] ''name'' = Some (JStr ''Dan'')"
    "map_of [(''name'', JStr ''Dan''), (''email'', JStr ''dan@x.io'')] ''email'' = Some (JStr ''dan@x.io'')"
    by (simp_all add: dan_body_def)
  have g: "Some (JObj [(''name'', JStr ''a''), (''email'', JStr ''invalid'')]) =
      Some (JObj [(''name'', JStr ''a''), (''email'', JStr ''invalid'')])"
    "map_of [(''name'', JStr ''a''), (''email'', JStr ''invalid'')] ''name'' = Some (JStr ''a'')"
    "map_of [(''name'', JStr ''a''), (''email'', JStr ''invalid'')] ''email'' = Some (JStr ''invalid'')"
    by simp_all
  have r: "readUsers store1 = [ann]" by (simp add: store1_def boot_def readUsers_def)
  have v: "2 \<le> length ''Dan''" "has_at ''dan@x.io''" "writable store1"
    "''dan@x.io'' \<notin> email ` set (readUsers store1)" "new_id \<notin> id' ` set (readUsers store1)"
    "length ''a'' < 2" "\<not> has_at ''invalid''"
    unfolding r by (simp_all add: has_at_def store1_def boot_def ann_def new_id_def)
  from create_then_get[where isEmail = has_at and s = store1 and uuid = new_id and now = stamp4
      and n = "''Dan''" and e = "''dan@x.io''", OF h] v ex_ids(4)
  have a: "post_users has_at new_id stamp4 store1 dan_body =
       (\<lparr>code = 201,
         payload = UserBody \<lparr>id' = new_id, name = ''Dan'', email = ''dan@x.io'',
                             createdAt = stamp4, isActive = None\<rparr>\<rparr>,
        store1\<lparr>usersFile := Users (readUsers store1 @ [\<lparr>id' = new_id, name = ''Dan'',
            email = ''dan@x.io'', createdAt = stamp4, isActive = None\<rparr>])\<rparr>,
        [ReadUsers, WriteUsers])"
    and b: "get_user_by_id (fst (snd (post_users has_at new_id stamp4 store1 dan_body))) new_id =
       (\<lparr>code = 200,
         payload = UserBody \<lparr>id' = new_id, name = ''Dan'', email = ''dan@x.io'',
                             createdAt = stamp4, isActive = None\<rparr>\<rparr>,
        fst (snd (post_users has_at new_id stamp4 store1 dan_body)), [ReadUsers])"
    by blast+
  from create_then_get[where isEmail = has_at and s = store1 and uuid = new_id and now = stamp4
      and n = "''a''" and e = "''invalid''", OF g] v(6,7)
  have c: "post_users has_at new_id stamp4 store1
        (Some (JObj [(''name'', JStr ''a''), (''email'', JStr ''invalid'')])) =
       (\<lparr>code = 400, payload = IssuesBody [too_small ''name'', invalid_format ''email'']\<rparr>,
        store1, [])"
    by simp
  from a b c v ex_ids(4) show ?thesis by (simp add: r)
qed

section \<open>Task lifecycle (C2)\<close>

lemma get_users_active_frame: "fst (snd (get_users_active s)) = s"
  by (simp add: get_users_active_def)

lemma get_users_frame: "fst (snd (get_users s pq lq)) = s"
  by (simp add: get_users_def Let_def)

lemma get_user_by_id_frame: "fst (snd (get_user_by_id s ident)) = s"
  by (simp add: get_user_by_id_def Let_def split: option.splits)

lemma get_task_frame: "fst (snd (get_task s ident)) = s"
  by (simp add: get_task_def split: option.splits)

lemma post_users_frame:
  "tasks (fst (snd (post_users isEmail uuid now s b))) = tasks s
   \<and> workers (fst (snd (post_users isEmail uuid now s b))) = workers s"
  by (auto simp: post_users_def Let_def writeUsers_def split: sum.splits prod.splits)

lemma delete_user_frame:
  "tasks (fst (snd (delete_user s ident))) = tasks s
   \<and> workers (fst (snd (delete_user s ident))) = workers s"
  by (auto simp: delete_user_def Let_def writeUsers_def split: option.splits)

lemma post_tasks_heavy_cases:
  "fst (snd (post_tasks_heavy uuid now s b)) = s
   \<or> (\<exists>n. fst (snd (post_tasks_heavy uuid now s b)) =
        s\<lparr>tasks := (tasks s)(uuid \<mapsto>
             \<lparr>taskId = uuid, status = Processing, iterations = n, result = None,
              duration = None, error = None\<rparr>),
          workers := (workers s)(uuid \<mapsto> now)\<rparr>)"
  by (auto simp: post_tasks_heavy_def Let_def split: sum.splits)

text \<open>The three kinds of step, seen from the registry.\<close>

lemma step_cases:
  assumes "step isEmail s ev = Some s'"
  shows "(tasks s' = tasks s \<and> workers s' = workers s)
    \<or> (\<exists>uuid t0 ms. tasks s uuid = None \<and> status t0 = Processing \<and> result t0 = None
          \<and> duration t0 = None \<and> error t0 = None
          \<and> tasks s' = (tasks s)(uuid \<mapsto> t0) \<and> workers s' = (workers s)(uuid \<mapsto> ms))
    \<or> (\<exists>tid st t t'. workers s tid = Some st \<and> tasks s tid = Some t
          \<and> tasks s' = (tasks s)(tid \<mapsto> t') \<and> workers s' = (workers s)(tid := None)
          \<and> ((\<exists>r d. t' = on_message t r d) \<or> (\<exists>m. t' = on_error t m)))"
proof (cases ev)
  case (Http req uuid stamp ms)
  with assms have fresh: "tasks s uuid = None"
    and s': "s' = fst (snd (handle isEmail uuid stamp ms s req))"
    by (auto simp: step_def split: if_splits)
  show ?thesis
  proof (cases req)
    case (PostTasksHeavy b)
    with s' have e: "s' = fst (snd (post_tasks_heavy uuid ms s b))" by (simp add: handle_def)
    from post_tasks_heavy_cases[of uuid ms s b] show ?thesis
    proof
      assume "fst (snd (post_tasks_heavy uuid ms s b)) = s"
      with e show ?thesis by simp
    next
      assume "\<exists>n. fst (snd (post_tasks_heavy uuid ms s b)) =
        s\<lparr>tasks := (tasks s)(uuid \<mapsto>
             \<lparr>taskId = uuid, status = Processing, iterations = n, result = None,
              duration = None, error = None\<rparr>),
          workers := (workers s)(uuid \<mapsto> ms)\<rparr>"
      then obtain n where n: "s' = s\<lparr>tasks := (tasks s)(uuid \<mapsto>
             \<lparr>taskId = uuid, status = Processing, iterations = n, result = None,
              duration = None, error = None\<rparr>),
          workers := (workers s)(uuid \<mapsto> ms)\<rparr>"
        using e by auto
      let ?t0 = "\<lparr>taskId = uuid, status = Processing, iterations = n, result = None,
              duration = None, error = None\<rparr>"
      have "tasks s uuid = None \<and> status ?t0 = Processing \<and> result ?t0 = None
          \<and> duration ?t0 = None \<and> error ?t0 = None
          \<and> tasks s' = (tasks s)(uuid \<mapsto> ?t0) \<and> workers s' = (workers s)(uuid \<mapsto> ms)"
        using fresh n by simp
      then show ?thesis by blast
    qed
  qed (use s' in \<open>simp_all add: handle_def get_users_active_frame get_users_frame
        get_user_by_id_frame get_task_frame post_users_frame delete_user_frame\<close>)
next
  case (WorkerMessage tid res now)
  with assms obtain st t where w: "workers s tid = Some st" "tasks s tid = Some t"
    and s': "s' = s\<lparr>tasks := (tasks s)(tid \<mapsto> on_message t res (now - st)),
                     workers := (workers s)(tid := None)\<rparr>"
    by (auto simp: step_def worker_message_def split: option.splits)
  have "workers s tid = Some st \<and> tasks s tid = Some t
      \<and> tasks s' = (tasks s)(tid \<mapsto> on_message t res (now - st))
      \<and> workers s' = (workers s)(tid := None)
      \<and> ((\<exists>r d. on_message t res (now - st) = on_message t r d)
         \<or> (\<exists>m. on_message t res (now - st) = on_error t m))"
    using w s' by auto
  then show ?thesis by blast
next
  case (WorkerError tid msg)
  with assms obtain st t where w: "workers s tid = Some st" "tasks s tid = Some t"
    and s': "s' = s\<lparr>tasks := (tasks s)(tid \<mapsto> on_error t msg),
                     workers := (workers s)(tid := None)\<rparr>"
    by (auto simp: step_def worker_error_def split: option.splits)
  have "workers s tid = Some st \<and> tasks s tid = Some t
      \<and> tasks s' = (tasks s)(tid \<mapsto> on_error t msg)
      \<and> workers s' = (workers s)(tid := None)
      \<and> ((\<exists>r d. on_error t msg = on_message t r d) \<or> (\<exists>m. on_error t msg = on_error t m))"
    using w s' by auto
  then show ?thesis by blast
qed

lemma worker_inv_boot: "worker_inv (boot f w)"
  by (simp add: worker_inv_def boot_def)

lemma worker_inv_step:
  assumes "worker_inv s" and "step isEmail s ev = Some s'"
  shows "worker_inv s'"
  using step_cases[OF assms(2)] assms(1)
  unfolding worker_inv_def by (elim disjE exE conjE) (auto split: if_splits)

lemma worker_inv_run:
  "worker_inv s \<Longrightarrow> run isEmail s evs = Some s' \<Longrightarrow> worker_inv s'"
proof (induction evs arbitrary: s)
  case Nil
  then show ?case by simp
next
  case (Cons ev evs)
  from Cons.prems(2) obtain s1 where s1: "step isEmail s ev = Some s1" "run isEmail s1 evs = Some s'"
    by (auto split: option.splits)
  from worker_inv_step[OF Cons.prems(1) s1(1)] Cons.IH s1(2) show ?case by blast
qed

lemma step_created:
  assumes "step isEmail s ev = Some s'" and "tasks s tid = None" and "tasks s' tid = Some t'"
  shows "status t' = Processing \<and> result t' = None \<and> duration t' = None \<and> error t' = None"
  using step_cases[OF assms(1)] assms(2,3)
  by (elim disjE exE conjE) (auto split: if_splits)

lemma step_kept:
  assumes "step isEmail s ev = Some s'" and "tasks s tid = Some t"
  shows "tasks s' tid \<noteq> None"
  using step_cases[OF assms(1)] assms(2)
  by (elim disjE exE conjE) (auto split: if_splits)

lemma step_terminal:
  assumes "worker_inv s" and "step isEmail s ev = Some s'"
    and "tasks s tid = Some t" and "status t \<noteq> Processing"
  shows "tasks s' tid = Some t"
  using step_cases[OF assms(2)] assms(1,3,4)
  unfolding worker_inv_def by (elim disjE exE conjE) (auto split: if_splits)

lemma step_transition:
  assumes "worker_inv s" and "step isEmail s ev = Some s'"
    and "tasks s tid = Some t" and "tasks s' tid = Some t'" and "t' \<noteq> t"
  shows "status t = Processing
     \<and> (status t' = Completed \<and> result t' \<noteq> None \<and> duration t' \<noteq> None
        \<or> status t' = Error \<and> error t' \<noteq> None)"
  using step_cases[OF assms(2)] assms(1,3,4,5)
  unfolding worker_inv_def
  by (elim disjE exE conjE) (auto simp: on_message_def on_error_def split: if_splits)

lemma status_changes_bound:
  "worker_inv s \<Longrightarrow> status_changes isEmail tid s evs \<le> remaining s tid"
proof (induction evs arbitrary: s)
  case Nil
  then show ?case by simp
next
  case (Cons ev evs)
  show ?case
  proof (cases "step isEmail s ev")
    case None
    then show ?thesis by simp
  next
    case (Some s')
    have inv': "worker_inv s'" by (rule worker_inv_step[OF Cons.prems Some])
    have ih: "status_changes isEmail tid s' evs \<le> remaining s' tid" by (rule Cons.IH[OF inv'])
    show ?thesis
    proof (cases "status_changed tid s s'")
      case True
      then obtain t t' where t: "tasks s tid = Some t" "tasks s' tid = Some t'"
          "status t \<noteq> status t'"
        by (auto simp: status_changed_def split: option.splits)
      then have "t' \<noteq> t" by auto
      from step_transition[OF Cons.prems Some t(1,2) this]
      have "status t = Processing" "status t' \<noteq> Processing" by auto
      with t have "remaining s tid = 1" "remaining s' tid = 0" by (simp_all add: remaining_def)
      with ih True Some show ?thesis by simp
    next
      case False
      have "remaining s' tid \<le> remaining s tid"
      proof (cases "tasks s tid")
        case None
        then show ?thesis by (simp add: remaining_def split: option.splits)
      next
        case (Some t)
        show ?thesis
        proof (cases "status t = Processing")
          case True
          with Some show ?thesis by (simp add: remaining_def split: option.splits)
        next
          case False
          from step_terminal[OF Cons.prems \<open>step isEmail s ev = Some s'\<close> Some False]
          show ?thesis using Some by (simp add: remaining_def)
        qed
      qed
      with ih False Some show ?thesis by simp
    qed
  qed
qed

lemma remaining_le_1: "remaining s tid \<le> 1"
  by (simp add: remaining_def split: option.splits)

text \<open>
  C2. In every state the server reaches from its start, and for every step from there
  (a request handled, a worker's message or error delivered): a task that appears is
  in the \<open>processing\<close> state with no result, duration or error; a task is never
  removed; a task that is \<open>completed\<close> or \<open>error\<close> is left exactly as it is; and a
  task that changes was \<open>processing\<close> and becomes \<open>completed\<close> with result and
  duration set, or \<open>error\<close> with the message set. Over a whole run the status of a
  task changes at most once.
\<close>

theorem task_lifecycle:
  assumes "run isEmail (boot f w) evs = Some s" and "step isEmail s ev = Some s'"
  shows "(tasks s tid = None \<longrightarrow>
           (\<forall>t'. tasks s' tid = Some t' \<longrightarrow>
              status t' = Processing \<and> result t' = None \<and> duration t' = None \<and> error t' = None))
       \<and> (\<forall>t. tasks s tid = Some t \<longrightarrow> tasks s' tid \<noteq> None)
       \<and> (\<forall>t. tasks s tid = Some t \<longrightarrow> status t \<noteq> Processing \<longrightarrow> tasks s' tid = Some t)
       \<and> (\<forall>t t'. tasks s tid = Some t \<longrightarrow> tasks s' tid = Some t' \<longrightarrow> t' \<noteq> t \<longrightarrow>
            status t = Processing
            \<and> (status t' = Completed \<and> result t' \<noteq> None \<and> duration t' \<noteq> None
               \<or> status t' = Error \<and> error t' \<noteq> None))
       \<and> status_changes isEmail tid (boot f w) (evs @ [ev]) \<le> 1"
proof -
  have inv: "worker_inv s" using worker_inv_run[OF worker_inv_boot assms(1)] .
  have c: "status_changes isEmail tid (boot f w) (evs @ [ev]) \<le> 1"
    using status_changes_bound[OF worker_inv_boot, of isEmail tid f w "evs @ [ev]"]
      remaining_le_1[of "boot f w" tid] by simp
  from step_created[OF assms(2)] step_kept[OF assms(2)] step_terminal[OF inv assms(2)]
    step_transition[OF inv assms(2)] c
  show ?thesis by blast
qed

text \<open>
  The two callbacks carry no guard of their own: applied to a finished task they would
  overwrite its status. What keeps a finished task as it is, is that no event is
  delivered for it any more.
\<close>

lemma callbacks_unguarded:
  "status (on_error (on_message t r d) m) = Error"
  "status (on_message (on_error t m) r d) = Completed"
  by (simp_all add: on_message_def on_error_def)

lemma ex_iterations_1000: "iterations_schema (Some (JNum 1000)) = Inr 1000"
  by code_simp

lemma ex_submit_step: "step has_at (boot FileMissing True) submit1000 = Some submitted"
  by (simp add: step_def submit1000_def boot_def handle_def post_tasks_heavy_def readUsers_def
      TaskSchema_parse_def ex_iterations_1000 task1000_def submitted_def Let_def)

lemma ex_message_step: "step has_at submitted (WorkerMessage new_id 7 250) = Some finished"
  by (simp add: step_def worker_message_def on_message_def boot_def submitted_def
      finished_def)

lemma ex_late_error: "step has_at finished (WorkerError new_id ''late'') = None"
  by (simp add: step_def worker_error_def boot_def finished_def)

lemma ex_changes:
  "status_changes has_at new_id (boot FileMissing True)
     ([submit1000] @ [WorkerMessage new_id 7 250]) = 1"
proof -
  have "\<not> status_changed new_id (boot FileMissing True) submitted"
    by (simp add: status_changed_def boot_def)
  moreover have "status_changed new_id submitted finished"
    by (simp add: status_changed_def boot_def task1000_def submitted_def finished_def)
  ultimately show ?thesis
    by (simp add: ex_submit_step ex_message_step)
qed

theorem task_lifecycle_witness:
  "run has_at (boot FileMissing True) [submit1000] = Some submitted
   \<and> step has_at submitted (WorkerMessage new_id 7 250) = Some finished
   \<and> tasks submitted new_id = Some task1000 \<and> status task1000 = Processing
   \<and> tasks finished new_id =
       Some (task1000\<lparr>status := Completed, result := Some 7, duration := Some 150\<rparr>)
   \<and> step has_at finished (WorkerError new_id ''late'') = None
   \<and> status_changes has_at new_id (boot FileMissing True)
        ([submit1000] @ [WorkerMessage new_id 7 250]) = 1
   \<and> status_changes has_at new_id (boot FileMissing True)
        ([submit1000] @ [WorkerMessage new_id 7 250]) \<le> 1"
proof -
  have r1: "run has_at (boot FileMissing True) [submit1000] = Some submitted"
    by (simp add: ex_submit_step)
  have t: "tasks submitted new_id = Some task1000" "status task1000 = Processing"
    "tasks finished new_id =
       Some (task1000\<lparr>status := Completed, result := Some 7, duration := Some 150\<rparr>)"
    by (simp_all add: submitted_def finished_def task1000_def)
  have u: "status_changes has_at new_id (boot FileMissing True)
        ([submit1000] @ [WorkerMessage new_id 7 250]) \<le> 1"
    using task_lifecycle[OF r1 ex_message_step, of new_id] by (elim conjE)
  from r1 ex_message_step ex_late_error ex_changes t u show ?thesis by blast
qed

section \<open>Uniqueness of ids and emails\<close>

text \<open>
  No step of the server breaks the uniqueness of ids and of emails in the stored
  collection: a create appends a record whose email the duplicate check found absent
  and whose id is new, a delete removes one record, and nothing else rewrites the file.
  So a collection that starts unique (an absent file, an empty array) stays unique.
\<close>

lemma set_splice1: "set (splice1 xs i) \<subseteq> set xs"
  unfolding splice1_def using set_take_subset[of i xs] set_drop_subset[of "Suc i" xs] by auto

lemma distinct_map_splice1:
  "distinct (map f xs) \<Longrightarrow> distinct (map f (splice1 xs i))"
proof (induction xs arbitrary: i)
  case Nil
  then show ?case by (simp add: splice1_def)
next
  case (Cons x xs)
  show ?case
  proof (cases i)
    case 0
    with Cons.prems show ?thesis by (simp add: splice1_def)
  next
    case (Suc j)
    have e: "splice1 (x # xs) (Suc j) = x # splice1 xs j" by (simp add: splice1_def)
    from Cons.prems have "f x \<notin> f ` set xs" by simp
    with set_splice1[of xs j] have "f x \<notin> f ` set (splice1 xs j)" by blast
    with Cons.IH[of j] Cons.prems show ?thesis unfolding Suc e by simp
  qed
qed

lemma readUsers_cong: "usersFile s' = usersFile s \<Longrightarrow> readUsers s' = readUsers s"
  by (simp add: readUsers_def)

lemma post_users_store:
  "fst (snd (post_users isEmail uuid now s b)) = s
   \<or> (\<exists>n e. e \<notin> email ` set (readUsers s) \<and>
        fst (snd (post_users isEmail uuid now s b)) =
          s\<lparr>usersFile := Users (readUsers s @
               [\<lparr>id' = uuid, name = n, email = e, createdAt = now, isActive = None\<rparr>])\<rparr>)"
proof (cases "UserSchema_parse isEmail b")
  case (Inl issues)
  then show ?thesis by (simp add: post_users_def)
next
  case (Inr v)
  obtain n e where v: "v = (n, e)" by (cases v)
  show ?thesis
  proof (cases "list_ex (\<lambda>user. email user = e) (readUsers s)")
    case True
    with Inr v show ?thesis by (simp add: post_users_def)
  next
    case False
    then have ne: "e \<notin> email ` set (readUsers s)" by (auto simp: list_ex_iff)
    show ?thesis
    proof (cases "writable s")
      case True
      with Inr v False have "fst (snd (post_users isEmail uuid now s b)) =
          s\<lparr>usersFile := Users (readUsers s @
               [\<lparr>id' = uuid, name = n, email = e, createdAt = now, isActive = None\<rparr>])\<rparr>"
        by (simp add: post_users_def writeUsers_def Let_def)
      with ne show ?thesis by blast
    next
      case w: False
      with Inr v False show ?thesis by (simp add: post_users_def writeUsers_def Let_def)
    qed
  qed
qed

lemma delete_user_store:
  "fst (snd (delete_user s ident)) = s
   \<or> (\<exists>i. fst (snd (delete_user s ident)) = s\<lparr>usersFile := Users (splice1 (readUsers s) i)\<rparr>)"
  by (auto simp: delete_user_def writeUsers_def Let_def split: option.splits)

lemma users_inv_step:
  assumes "users_inv s" and "step isEmail s ev = Some s'"
  shows "users_inv s'"
proof (cases ev)
  case (Http req uuid stamp ms)
  with assms(2) have fresh: "uuid \<notin> id' ` set (readUsers s)"
    and s': "s' = fst (snd (handle isEmail uuid stamp ms s req))"
    by (auto simp: step_def split: if_splits)
  show ?thesis
  proof (cases req)
    case (PostUsers b)
    with s' have e: "s' = fst (snd (post_users isEmail uuid stamp s b))" by (simp add: handle_def)
    from post_users_store[of isEmail uuid stamp s b] show ?thesis
    proof
      assume "fst (snd (post_users isEmail uuid stamp s b)) = s"
      with e assms(1) show ?thesis by simp
    next
      assume "\<exists>n e. e \<notin> email ` set (readUsers s) \<and>
        fst (snd (post_users isEmail uuid stamp s b)) =
          s\<lparr>usersFile := Users (readUsers s @
               [\<lparr>id' = uuid, name = n, email = e, createdAt = stamp, isActive = None\<rparr>])\<rparr>"
      then obtain n m where m: "m \<notin> email ` set (readUsers s)"
        and "s' = s\<lparr>usersFile := Users (readUsers s @
               [\<lparr>id' = uuid, name = n, email = m, createdAt = stamp, isActive = None\<rparr>])\<rparr>"
        using e by auto
      then have "readUsers s' = readUsers s @
               [\<lparr>id' = uuid, name = n, email = m, createdAt = stamp, isActive = None\<rparr>]"
        by (simp add: readUsers_def)
      with assms(1) fresh m show ?thesis by (auto simp: users_inv_def)
    qed
  next
    case (DeleteUser ident)
    with s' have e: "s' = fst (snd (delete_user s ident))" by (simp add: handle_def)
    from delete_user_store[of s ident] show ?thesis
    proof
      assume "fst (snd (delete_user s ident)) = s"
      with e assms(1) show ?thesis by simp
    next
      assume "\<exists>i. fst (snd (delete_user s ident)) =
          s\<lparr>usersFile := Users (splice1 (readUsers s) i)\<rparr>"
      then obtain i where "s' = s\<lparr>usersFile := Users (splice1 (readUsers s) i)\<rparr>"
        using e by auto
      then have "readUsers s' = splice1 (readUsers s) i" by (simp add: readUsers_def)
      with assms(1) show ?thesis by (simp add: users_inv_def distinct_map_splice1)
    qed
  next
    case (PostTasksHeavy b)
    with s' have "s' = fst (snd (post_tasks_heavy uuid ms s b))" by (simp add: handle_def)
    with post_tasks_heavy_cases[of uuid ms s b] have "usersFile s' = usersFile s" by auto
    then have "readUsers s' = readUsers s" by (rule readUsers_cong)
    with assms(1) show ?thesis by (simp add: users_inv_def)
  qed (use s' assms(1) in \<open>simp_all add: handle_def get_users_active_frame get_users_frame
        get_user_by_id_frame get_task_frame\<close>)
next
  case (WorkerMessage tid res now)
  with assms(2) have "usersFile s' = usersFile s"
    by (auto simp: step_def worker_message_def split: option.splits)
  then have "readUsers s' = readUsers s" by (rule readUsers_cong)
  with assms(1) show ?thesis by (simp add: users_inv_def)
next
  case (WorkerError tid msg)
  with assms(2) have "usersFile s' = usersFile s"
    by (auto simp: step_def worker_error_def split: option.splits)
  then have "readUsers s' = readUsers s" by (rule readUsers_cong)
  with assms(1) show ?thesis by (simp add: users_inv_def)
qed

lemma users_inv_run:
  "users_inv s \<Longrightarrow> run isEmail s evs = Some s' \<Longrightarrow> users_inv s'"
proof (induction evs arbitrary: s)
  case Nil
  then show ?case by simp
next
  case (Cons ev evs)
  from Cons.prems(2) obtain s1 where s1: "step isEmail s ev = Some s1" "run isEmail s1 evs = Some s'"
    by (auto split: option.splits)
  from users_inv_step[OF Cons.prems(1) s1(1)] Cons.IH s1(2) show ?case by blast
qed

lemma users_inv_boot:
  "users_inv (boot FileMissing w)" "users_inv (boot ReadError w)" "users_inv (boot BadJson w)"
  "users_inv (boot (Users []) w)"
  by (simp_all add: users_inv_def readUsers_def boot_def)

end
